theory Spec2Isabelle
  imports Complex_Main "HOL-Library.Word" "HOL-Library.Multiset"
begin

unbundle bit_operations_syntax

section \<open>Data model of \<^verbatim>\<open>coral_growth/coral.py\<close>\<close>

text \<open>
  The class \<^verbatim>\<open>Coral\<close> keeps one numpy array per polyp attribute, all allocated in
  \<^verbatim>\<open>__init__\<close> with \<^verbatim>\<open>max_polyps\<close> rows, and a mesh of the external package cymesh.
  Arrays are lists here; an access outside a list is the \<^verbatim>\<open>IndexError\<close> numpy raises.

  Position entries are IEEE doubles whose special values matter to the check in
  \<^verbatim>\<open>step\<close>, so they are modelled by \<open>fl\<close>: a finite value, one of the two infinities,
  or NaN. Rounding of finite sums is not modelled. Light, collection, areas, lengths and
  the energy are modelled by real numbers, again without rounding.
\<close>

datatype fl = Fin real | PInf | NInf | NaN

fun fadd :: "fl \<Rightarrow> fl \<Rightarrow> fl" where
  "fadd NaN _ = NaN"
| "fadd _ NaN = NaN"
| "fadd PInf NInf = NaN"
| "fadd NInf PInf = NaN"
| "fadd PInf _ = PInf"
| "fadd _ PInf = PInf"
| "fadd NInf _ = NInf"
| "fadd _ NInf = NInf"
| "fadd (Fin x) (Fin y) = Fin (x + y)"

fun isnan :: "fl \<Rightarrow> bool" where
  "isnan NaN = True"
| "isnan _ = False"

text \<open>
  A mesh face as the core observes it: the lengths of its three edges
  (\<^verbatim>\<open>face.he.edge.length()\<close>, \<^verbatim>\<open>face.he.next.edge.length()\<close>,
  \<^verbatim>\<open>face.he.next.next.edge.length()\<close>), \<^verbatim>\<open>face.area()\<close> and the ids of
  \<^verbatim>\<open>face.vertices()\<close>.
\<close>

record face =
  l1 :: real
  l2 :: real
  l3 :: real
  area :: real
  vertices :: "nat list"

text \<open>
  The mesh is a store of shared vertex objects. A vertex is named by its \<^verbatim>\<open>id\<close>;
  \<open>verts\<close> is \<^verbatim>\<open>mesh.verts\<close> in order, \<open>vdata_polyp v\<close> is \<^verbatim>\<open>vert.data['polyp']\<close>
  (\<open>None\<close> when the key is absent), \<open>vp\<close> and \<open>vnormal\<close> are \<^verbatim>\<open>vert.p\<close> and
  \<^verbatim>\<open>vert.normal\<close>, and \<open>neighbors v\<close> is the list \<^verbatim>\<open>vert.neighbors()\<close> returns.
\<close>

record mesh =
  verts :: "nat list"
  vdata_polyp :: "nat \<rightharpoonup> nat"
  vp :: "nat \<Rightarrow> fl list"
  vnormal :: "nat \<Rightarrow> fl list"
  neighbors :: "nat \<Rightarrow> nat list"
  faces :: "face list"

text \<open>
  The fields of \<^verbatim>\<open>Coral\<close> that its own methods read or write. \<open>max_polyps\<close> and
  \<open>n_polyps\<close> are natural numbers: \<^verbatim>\<open>np.zeros(max_polyps)\<close> in \<^verbatim>\<open>__init__\<close> raises for a
  negative size, and \<open>n_polyps\<close> starts at 0 and is only ever incremented.
\<close>

record coral =
  mesh :: mesh
  n_memory :: nat
  max_polyps :: nat
  light_amount :: real
  max_edge_len :: real
  max_face_area :: real
  age :: nat
  n_polyps :: nat
  polyp_verts :: "nat option list"
  polyp_light :: "real list"
  polyp_pos :: "fl list list"
  polyp_normal :: "fl list list"
  polyp_collection :: "real list"
  polyp_memory :: "32 word list"
  energy :: real

datatype assertion = NaN_position | Vert_id_is_idx | NumInputs | NumOutputs | Memory_width

datatype error = AssertionError assertion | IndexError

text \<open>
  A call either returns or raises; in both cases the object is left in some state, so
  both alternatives carry it.
\<close>

datatype outcome = Returned coral | Raised error coral

fun state_of :: "outcome \<Rightarrow> coral" where
  "state_of (Returned s) = s"
| "state_of (Raised e s) = s"

fun raised :: "outcome \<Rightarrow> error option" where
  "raised (Returned s) = None"
| "raised (Raised e s) = Some e"

section \<open>\<^verbatim>\<open>Coral.createPolyp\<close>\<close>

text \<open>
  The inner loop \<^verbatim>\<open>for i in range(self.n_memory): if memory & (1 << i): foo[i] += 1\<close>.
  \<open>foo\<close> is a \<^verbatim>\<open>uint32\<close> array, so the increment wraps.
\<close>

definition count_bits :: "nat \<Rightarrow> 32 word \<Rightarrow> 32 word list \<Rightarrow> 32 word list" where
  "count_bits n memory foo =
     fold (\<lambda>i foo. if memory AND push_bit i 1 \<noteq> 0 then foo[i := foo ! i + 1] else foo)
       [0..<n] foo"

text \<open>
  The loop \<^verbatim>\<open>for vert_n in neighbors\<close>. \<open>None\<close> is the \<^verbatim>\<open>IndexError\<close> of
  \<^verbatim>\<open>self.polyp_memory[vert_n.data['polyp']]\<close>.
\<close>

fun tally :: "(nat \<rightharpoonup> nat) \<Rightarrow> 32 word list \<Rightarrow> nat \<Rightarrow> nat list \<Rightarrow> 32 word list
    \<Rightarrow> 32 word list option" where
  "tally vd mem n [] foo = Some foo"
| "tally vd mem n (vert_n # vs) foo =
     (case vd vert_n of
        None \<Rightarrow> tally vd mem n vs foo
      | Some j \<Rightarrow>
          if j < length mem then tally vd mem n vs (count_bits n (mem ! j) foo)
          else None)"

text \<open>
  The loop \<^verbatim>\<open>for i in range(self.n_memory): if foo[i] > half: self.polyp_memory[idx] |= (1 << i)\<close>,
  as a function of the word stored at \<open>idx\<close>.
\<close>

definition inherit :: "nat \<Rightarrow> 32 word list \<Rightarrow> nat \<Rightarrow> 32 word \<Rightarrow> 32 word" where
  "inherit n foo half w =
     fold (\<lambda>i w. if half < unat (foo ! i) then w OR push_bit i 1 else w) [0..<n] w"

text \<open>
  \<^verbatim>\<open>createPolyp(self, vert)\<close>, statement by statement. \<^verbatim>\<open>vert.p = self.polyp_pos[idx]\<close>
  rebinds \<^verbatim>\<open>vert.p\<close> to a view of the row just written from it, which leaves its value
  as it is. \<^verbatim>\<open>self.collisionManager.newVert(vert.id)\<close> belongs to an external module
  and touches none of the modelled fields. The write to \<^verbatim>\<open>polyp_memory[idx]\<close> happens,
  and can raise, only when some tally exceeds \<open>half\<close>.
\<close>

definition createPolyp :: "coral \<Rightarrow> nat \<Rightarrow> outcome" where
  "createPolyp s vert =
    (if n_polyps s = max_polyps s then Returned s
     else
       let idx = n_polyps s;
           s1 = s\<lparr>n_polyps := idx + 1,
                  mesh := (mesh s)\<lparr>vdata_polyp := (vdata_polyp (mesh s))(vert \<mapsto> idx)\<rparr>\<rparr>
       in
       if \<not> idx < length (polyp_pos s1) then Raised IndexError s1
       else
         let s2 = s1\<lparr>polyp_pos := (polyp_pos s1)[idx := vp (mesh s1) vert]\<rparr> in
         if \<not> idx < length (polyp_normal s2) then Raised IndexError s2
         else
           let s3 = s2\<lparr>mesh := (mesh s2)\<lparr>vnormal := (vnormal (mesh s2))(vert := polyp_normal s2 ! idx)\<rparr>\<rparr> in
           if \<not> idx < length (polyp_verts s3) then Raised IndexError s3
           else
             let s4 = s3\<lparr>polyp_verts := (polyp_verts s3)[idx := Some vert]\<rparr>;
                 foo0 = replicate (n_memory s4) (0 :: 32 word);
                 nbrs = neighbors (mesh s4) vert;
                 half = length nbrs div 2
             in
             case tally (vdata_polyp (mesh s4)) (polyp_memory s4) (n_memory s4) nbrs foo0 of
               None \<Rightarrow> Raised IndexError s4
             | Some foo \<Rightarrow>
                 if list_ex (\<lambda>i. half < unat (foo ! i)) [0..<n_memory s4]
                    \<and> \<not> idx < length (polyp_memory s4)
                 then Raised IndexError s4
                 else
                   let s5 = s4\<lparr>polyp_memory :=
                              (polyp_memory s4)[idx := inherit (n_memory s4) foo half
                                                         (polyp_memory s4 ! idx)]\<rparr>
                   in if vert \<noteq> idx then Raised (AssertionError Vert_id_is_idx) s5
                      else Returned s5)"

section \<open>External collaborators\<close>

text \<open>
  The modules \<^verbatim>\<open>coral_growth.grow_polyps\<close>, \<^verbatim>\<open>coral_growth.modules\<close> and the package
  cymesh are not part of the modelled file. Each of their entry points that \<^verbatim>\<open>Coral\<close>
  calls is a parameter: \<open>split\<close> is \<^verbatim>\<open>cymesh.subdivision.sqrt3.split(mesh, face,
  max_vertices)\<close>, the face given by its position in \<^verbatim>\<open>mesh.faces\<close>; the others take and
  return the object they are handed. They are assumed to return.
\<close>

record collab =
  grow_polyps :: "coral \<Rightarrow> coral"
  split :: "mesh \<Rightarrow> nat \<Rightarrow> nat \<Rightarrow> mesh"
  calculateNormals :: "mesh \<Rightarrow> mesh"
  calculateCurvature :: "mesh \<Rightarrow> mesh"
  calculate_light :: "coral \<Rightarrow> coral"
  calculate_collection :: "coral \<Rightarrow> coral"
  calculate_gravity :: "coral \<Rightarrow> coral"
  morphogens_update :: "coral \<Rightarrow> coral"

section \<open>\<^verbatim>\<open>Coral.calculateEnergy\<close>\<close>

text \<open>
  \<^verbatim>\<open>sum(arr[v.id] for v in vertices)\<close>: Python's \<^verbatim>\<open>sum\<close> starts from 0 and adds from
  the left. \<open>None\<close> is the \<^verbatim>\<open>IndexError\<close> of \<^verbatim>\<open>arr[v.id]\<close>.
\<close>

fun sum_at :: "real list \<Rightarrow> nat list \<Rightarrow> real \<Rightarrow> real option" where
  "sum_at arr [] acc = Some acc"
| "sum_at arr (v # vs) acc =
     (if v < length arr then sum_at arr vs (acc + arr ! v) else None)"

text \<open>The loop \<^verbatim>\<open>for face in self.mesh.faces\<close> with its two accumulators.\<close>

fun energy_loop :: "coral \<Rightarrow> face list \<Rightarrow> real \<Rightarrow> real \<Rightarrow> (real \<times> real) option" where
  "energy_loop s [] light collection = Some (light, collection)"
| "energy_loop s (f # fs) light collection =
     (case sum_at (polyp_light s) (vertices f) 0 of
        None \<Rightarrow> None
      | Some sl \<Rightarrow>
          (case sum_at (polyp_collection s) (vertices f) 0 of
             None \<Rightarrow> None
           | Some sc \<Rightarrow>
               energy_loop s fs (light + area f * sl / 3) (collection + area f * sc / 3)))"

definition calculateEnergy :: "coral \<Rightarrow> outcome" where
  "calculateEnergy s =
     (case energy_loop s (faces (mesh s)) 0 0 of
        None \<Rightarrow> Raised IndexError s
      | Some (light, collection) \<Rightarrow>
          Returned (s\<lparr>energy := light * light_amount s + collection * (1 - light_amount s)\<rparr>))"

section \<open>\<^verbatim>\<open>Coral.updateAttributes\<close>\<close>

text \<open>
  The two array statements \<^verbatim>\<open>self.polyp_light[self.polyp_light != 0] -= .5\<close> and
  \<^verbatim>\<open>self.polyp_light *= 2\<close>.
\<close>

definition remap_light :: "real list \<Rightarrow> real list" where
  "remap_light light =
     map (\<lambda>x. x * 2) (map (\<lambda>x. if x \<noteq> 0 then x - 5 / 10 else x) light)"

text \<open>
  \<^verbatim>\<open>flow.calculate_collection(self, 2)\<close> also returns the grid kept in
  \<^verbatim>\<open>self.flow_sgrid\<close>, which no modelled method reads.
\<close>

definition updateAttributes :: "collab \<Rightarrow> coral \<Rightarrow> outcome" where
  "updateAttributes X s =
     (let s1 = s\<lparr>mesh := calculateCurvature X (calculateNormals X (mesh s))\<rparr>;
          s2 = calculate_light X s1;
          s3 = calculate_collection X s2;
          s4 = s3\<lparr>polyp_light := remap_light (polyp_light s3)\<rparr>;
          s5 = calculate_gravity X s4;
          s6 = morphogens_update X s5
      in calculateEnergy s6)"

section \<open>\<^verbatim>\<open>Coral.polypDivision\<close>\<close>

text \<open>
  One iteration of \<^verbatim>\<open>for face in self.mesh.faces\<close>, up to the capacity test: the face
  object reached at position \<open>i\<close> of the list. The edge lengths are read before any
  split, the area after the first one. The second component lists the calls of
  \<^verbatim>\<open>split\<close> made, each by the position of the face it was given; it is kept only to
  state how often a face is split.
\<close>

definition visit_face :: "collab \<Rightarrow> coral \<Rightarrow> nat \<Rightarrow> coral \<times> nat list" where
  "visit_face X s i =
     (let face = faces (mesh s) ! i;
          edge_trigger = (max (max (l1 face) (l2 face)) (l3 face) > max_edge_len s);
          m1 = (if edge_trigger then split X (mesh s) i (max_polyps s) else mesh s);
          area_trigger = (area (faces m1 ! i) > max_face_area s);
          m2 = (if area_trigger then split X m1 i (max_polyps s) else m1)
      in (s\<lparr>mesh := m2\<rparr>,
          (if edge_trigger then [i] else []) @ (if area_trigger then [i] else [])))"

text \<open>
  The face loop. A Python \<^verbatim>\<open>for\<close> over a list reads the list by increasing position
  and sees what a split appends, so the loop may not end; the first argument bounds the
  number of iterations, and \<open>None\<close> says the bound was too small.
\<close>

fun face_loop :: "nat \<Rightarrow> collab \<Rightarrow> coral \<Rightarrow> nat \<Rightarrow> nat list \<Rightarrow> (coral \<times> nat list) option" where
  "face_loop fuel X s i calls =
     (if i < length (faces (mesh s)) then
        (case fuel of
           0 \<Rightarrow> None
         | Suc fuel' \<Rightarrow>
             (case visit_face X s i of
                (s', cs) \<Rightarrow>
                  if n_polyps s' = max_polyps s' then Some (s', calls @ cs)
                  else face_loop fuel' X s' (i + 1) (calls @ cs)))
      else Some (s, calls))"

text \<open>The loop \<^verbatim>\<open>for vert in self.mesh.verts: if 'polyp' not in vert.data: ...\<close>.\<close>

fun bind_loop :: "coral \<Rightarrow> nat list \<Rightarrow> outcome" where
  "bind_loop s [] = Returned s"
| "bind_loop s (vert # vs) =
     (if vdata_polyp (mesh s) vert = None then
        (case createPolyp s vert of
           Returned s' \<Rightarrow> bind_loop s' vs
         | Raised e s' \<Rightarrow> Raised e s')
      else bind_loop s vs)"

definition polypDivision :: "nat \<Rightarrow> collab \<Rightarrow> coral \<Rightarrow> outcome option" where
  "polypDivision fuel X s =
     (case face_loop fuel X s 0 [] of
        None \<Rightarrow> None
      | Some (s', calls) \<Rightarrow> Some (bind_loop s' (verts (mesh s'))))"

section \<open>\<^verbatim>\<open>Coral.step\<close>\<close>

text \<open>
  \<^verbatim>\<open>np.sum(self.polyp_pos[:self.n_polyps])\<close>: the slice keeps the first \<open>n_polyps\<close>
  rows (fewer when the array is shorter) and the sum runs over all their entries,
  starting from 0.
\<close>

definition np_sum :: "fl list list \<Rightarrow> fl" where
  "np_sum rows = foldl fadd (Fin 0) (concat rows)"

definition nan_position :: "coral \<Rightarrow> bool" where
  "nan_position s = isnan (np_sum (take (n_polyps s) (polyp_pos s)))"

definition step :: "nat \<Rightarrow> collab \<Rightarrow> coral \<Rightarrow> outcome option" where
  "step fuel X s =
     (let s1 = grow_polyps X s in
      if nan_position s1 then Some (Raised (AssertionError NaN_position) s1)
      else
        (case polypDivision fuel X s1 of
           None \<Rightarrow> None
         | Some (Raised e s2) \<Rightarrow> Some (Raised e s2)
         | Some (Returned s2) \<Rightarrow>
             (case updateAttributes X s2 of
                Raised e s3 \<Rightarrow> Some (Raised e s3)
              | Returned s3 \<Rightarrow> Some (Returned (s3\<lparr>age := age s3 + 1\<rparr>)))))"

section \<open>The shape checks of \<^verbatim>\<open>Coral.__init__\<close>\<close>

text \<open>
  The parameters the constructor reads for the sizes of the network, and the three
  assertions that follow their computation. \<open>net_inputs\<close> and \<open>net_outputs\<close> are
  \<^verbatim>\<open>network.NumInputs()\<close> and \<^verbatim>\<open>network.NumOutputs()\<close>. The result is the error raised,
  or the pair \<^verbatim>\<open>(self.num_inputs, self.num_outputs)\<close> with which construction goes on.
\<close>

record params =
  p_polyp_memory :: int
  p_n_morphogens :: int
  p_morph_thresholds :: int

definition num_inputs :: "params \<Rightarrow> int" where
  "num_inputs p = 5 + p_polyp_memory p + p_n_morphogens p * (p_morph_thresholds p - 1)"

definition num_outputs :: "params \<Rightarrow> int" where
  "num_outputs p = 1 + p_polyp_memory p + p_n_morphogens p"

definition init_asserts :: "params \<Rightarrow> int \<Rightarrow> int \<Rightarrow> error + int \<times> int" where
  "init_asserts p net_inputs net_outputs =
     (if net_inputs \<noteq> num_inputs p then Inl (AssertionError NumInputs)
      else if net_outputs \<noteq> num_outputs p then Inl (AssertionError NumOutputs)
      else if \<not> p_polyp_memory p \<le> 32 then Inl (AssertionError Memory_width)
      else Inr (num_inputs p, num_outputs p))"

section \<open>The specification's wording\<close>

text \<open>
  The energy as the specification words it: over all faces, the face's area times the
  mean of its three vertices' values, combined with the weight \<open>light_amount\<close>.
\<close>

definition face_mean :: "real list \<Rightarrow> face \<Rightarrow> real" where
  "face_mean arr f =
     (arr ! (vertices f ! 0) + arr ! (vertices f ! 1) + arr ! (vertices f ! 2)) / 3"

definition spec_total :: "real list \<Rightarrow> face list \<Rightarrow> real" where
  "spec_total arr fs = sum_list (map (\<lambda>f. area f * face_mean arr f) fs)"

definition spec_energy :: "coral \<Rightarrow> real" where
  "spec_energy s =
     spec_total (polyp_light s) (faces (mesh s)) * light_amount s
     + spec_total (polyp_collection s) (faces (mesh s)) * (1 - light_amount s)"

text \<open>
  The vote of the one-ring of a vertex on memory bit \<open>i\<close>: the neighbours that are bound
  to a polyp, and how many of them have the bit set in their polyp's memory.
\<close>

definition bound_neighbors :: "coral \<Rightarrow> nat \<Rightarrow> nat list" where
  "bound_neighbors s vert =
     filter (\<lambda>u. vdata_polyp (mesh s) u \<noteq> None) (neighbors (mesh s) vert)"

definition has_bit :: "(nat \<rightharpoonup> nat) \<Rightarrow> 32 word list \<Rightarrow> nat \<Rightarrow> nat \<Rightarrow> bool" where
  "has_bit vd mem i u = (case vd u of None \<Rightarrow> False | Some j \<Rightarrow> bit (mem ! j) i)"

definition votes :: "coral \<Rightarrow> nat \<Rightarrow> nat \<Rightarrow> nat" where
  "votes s vert i =
     length (filter (has_bit (vdata_polyp (mesh s)) (polyp_memory s) i)
               (neighbors (mesh s) vert))"

text \<open>
  Modelled from the spec: the contract of the collaborators that take the whole object
  (\<^verbatim>\<open>grow_polyps\<close>, the light, collection and gravity calculators, the morphogen
  solver), whose code is not in the modelled file. Each produces the arrays it owns and
  none creates a polyp or changes the capacity.
\<close>

definition keeps_counters :: "(coral \<Rightarrow> coral) \<Rightarrow> bool" where
  "keeps_counters f = (\<forall>s. n_polyps (f s) = n_polyps s \<and> max_polyps (f s) = max_polyps s)"

definition frame :: "collab \<Rightarrow> bool" where
  "frame X =
     (keeps_counters (grow_polyps X) \<and> keeps_counters (calculate_light X)
      \<and> keeps_counters (calculate_collection X) \<and> keeps_counters (calculate_gravity X)
      \<and> keeps_counters (morphogens_update X))"

text \<open>
  Modelled from the spec: the field calculators each produce exactly one array of their
  own. For the gravity calculator and the morphogen solver, which run after the light
  remap, this says that they leave the light array as they find it.
\<close>

definition keeps_light :: "(coral \<Rightarrow> coral) \<Rightarrow> bool" where
  "keeps_light f = (\<forall>s. polyp_light (f s) = polyp_light s)"

text \<open>
  What a call may do to the population counter: the capacity stays, the counter does not
  decrease, and a counter within the capacity stays within it.
\<close>

definition grows :: "coral \<Rightarrow> coral \<Rightarrow> bool" where
  "grows s t =
     (max_polyps t = max_polyps s \<and> n_polyps s \<le> n_polyps t
      \<and> (n_polyps s \<le> max_polyps s \<longrightarrow> n_polyps t \<le> max_polyps t))"

text \<open>
  The face at position \<open>i\<close> has its three edge lengths at or below \<open>max_edge_len\<close> and its
  area at or below \<open>max_face_area\<close>.
\<close>

definition within_thresholds :: "coral \<Rightarrow> nat \<Rightarrow> bool" where
  "within_thresholds s i =
     (max (max (l1 (faces (mesh s) ! i)) (l2 (faces (mesh s) ! i))) (l3 (faces (mesh s) ! i))
        \<le> max_edge_len s
      \<and> area (faces (mesh s) ! i) \<le> max_face_area s)"

section \<open>Example inputs\<close>

text \<open>Collaborators that change nothing, and a splitter that refuses every face.\<close>

definition quiet :: collab where
  "quiet = \<lparr>grow_polyps = (\<lambda>s. s), split = (\<lambda>m i n. m), calculateNormals = (\<lambda>m. m),
            calculateCurvature = (\<lambda>m. m), calculate_light = (\<lambda>s. s),
            calculate_collection = (\<lambda>s. s), calculate_gravity = (\<lambda>s. s),
            morphogens_update = (\<lambda>s. s)\<rparr>"

text \<open>
  A splitter in the manner of the \<open>\<surd>3\<close> scheme: unless the mesh already has
  \<open>max_vertices\<close> vertices, it puts a new vertex in the face, keeps the face object for
  one third of the area and appends two faces for the rest.
\<close>

definition centroid_split :: "mesh \<Rightarrow> nat \<Rightarrow> nat \<Rightarrow> mesh" where
  "centroid_split m i max_vertices =
     (if max_vertices \<le> length (verts m) \<or> \<not> i < length (faces m) then m
      else
        let f = faces m ! i;
            c = length (verts m);
            a = vertices f ! 0; b = vertices f ! 1; d = vertices f ! 2;
            part = (\<lambda>vs. f\<lparr>area := area f / 3, vertices := vs\<rparr>)
        in m\<lparr>verts := verts m @ [c],
             neighbors := (\<lambda>v. if v = c then [a, b, d]
                                else if v \<in> set (vertices f) then neighbors m v @ [c]
                                else neighbors m v),
             faces := (faces m)[i := part [a, b, c]] @ [part [b, d, c], part [d, a, c]]\<rparr>)"

definition dividing :: collab where
  "dividing = quiet\<lparr>split := centroid_split\<rparr>"

definition origin :: "fl list" where
  "origin = [Fin 0, Fin 0, Fin 0]"

definition triangle :: mesh where
  "triangle = \<lparr>verts = [0, 1, 2], vdata_polyp = [0 \<mapsto> 0, 1 \<mapsto> 1, 2 \<mapsto> 2],
               vp = (\<lambda>v. origin), vnormal = (\<lambda>v. origin),
               neighbors = (\<lambda>v. if v = 0 then [1, 2] else if v = 1 then [2, 0]
                                 else if v = 2 then [0, 1] else []),
               faces = [\<lparr>l1 = 1, l2 = 1, l3 = 1, area = 1 / 2, vertices = [0, 1, 2]\<rparr>]\<rparr>"

text \<open>
  Three polyps on one triangle within both thresholds, with room for three more polyps.
\<close>

definition colony :: coral where
  "colony = \<lparr>mesh = triangle, n_memory = 2, max_polyps = 6, light_amount = 1 / 2,
             max_edge_len = 2, max_face_area = 1, age = 0, n_polyps = 3,
             polyp_verts = [Some 0, Some 1, Some 2, None, None, None],
             polyp_light = [0, 3 / 10, 1, 0, 0, 0],
             polyp_pos = replicate 6 origin,
             polyp_normal = replicate 6 origin,
             polyp_collection = [1, 1, 1, 0, 0, 0],
             polyp_memory = [1, 1, 2, 0, 0, 0],
             energy = 0\<rparr>"

text \<open>A colony of the same three polyps with no room left.\<close>

definition full_colony :: coral where
  "full_colony = colony\<lparr>max_polyps := 3,
                        polyp_verts := [Some 0, Some 1, Some 2],
                        polyp_light := [0, 3 / 10, 1],
                        polyp_pos := replicate 3 origin,
                        polyp_normal := replicate 3 origin,
                        polyp_collection := [1, 1, 1],
                        polyp_memory := [1, 1, 2]\<rparr>"

text \<open>
  Full colonies whose positions went wrong: one coordinate at plus infinity; two
  coordinates at opposite infinities; one coordinate NaN.
\<close>

definition runaway :: coral where
  "runaway = full_colony\<lparr>polyp_pos := [[PInf, Fin 0, Fin 0], origin, origin]\<rparr>"


definition corrupt :: coral where
  "corrupt = full_colony\<lparr>polyp_pos := [origin, [Fin 0, NaN, Fin 0], origin]\<rparr>"


text \<open>
  A growth front: the new vertex 3 has the one-ring 0, 1, 4, 5, of which 0 and 1 are
  bound, both with memory bit 0 set, and 4 and 5 are not yet bound.
\<close>

definition front :: coral where
  "front = colony\<lparr>mesh := triangle\<lparr>verts := [0, 1, 2, 3, 4, 5],
                                   neighbors := (\<lambda>v. if v = 3 then [0, 1, 4, 5] else [])\<rparr>\<rparr>"

text \<open>The same front where the one-ring of vertex 3 is 0, 1, 4.\<close>

definition front3 :: coral where
  "front3 = colony\<lparr>mesh := triangle\<lparr>verts := [0, 1, 2, 3, 4],
                                    neighbors := (\<lambda>v. if v = 3 then [0, 1, 4] else [])\<rparr>\<rparr>"

text \<open>A face nine times over the area threshold and over the edge threshold.\<close>

definition large_face :: coral where
  "large_face =
     colony\<lparr>mesh := triangle\<lparr>faces := [\<lparr>l1 = 3, l2 = 3, l3 = 3, area = 9,
                                          vertices = [0, 1, 2]\<rparr>]\<rparr>\<rparr>"

section \<open>Auxiliary facts\<close>

lemma sum_at_in_range:
  "\<forall>v\<in>set vs. v < length arr \<Longrightarrow> sum_at arr vs acc = Some (acc + sum_list (map ((!) arr) vs))"
  by (induction vs arbitrary: acc) simp_all

lemma foldl_fadd_NaN: "foldl fadd NaN xs = NaN"
  by (induction xs) simp_all

lemma fadd_NaN_right: "fadd a NaN = NaN"
  by (cases a) simp_all

lemma foldl_fadd_has_NaN: "NaN \<in> set xs \<Longrightarrow> foldl fadd acc xs = NaN"
  by (induction xs arbitrary: acc) (auto simp: foldl_fadd_NaN fadd_NaN_right)



lemma triple: "length xs = 3 \<Longrightarrow> \<exists>a b c. xs = [a, b, c]"
  by (auto simp: numeral_3_eq_3 length_Suc_conv)

lemma sum_at_triangle:
  assumes "length (vertices f) = 3" and "\<forall>v\<in>set (vertices f). v < length arr"
  shows "sum_at arr (vertices f) 0 = Some (3 * face_mean arr f)"
proof -
  obtain a b c where v: "vertices f = [a, b, c]"
    using triple[OF assms(1)] by blast
  show ?thesis
    using assms(2) by (simp add: v face_mean_def)
qed

lemma energy_loop_spec:
  assumes "\<forall>f\<in>set fs. length (vertices f) = 3
             \<and> (\<forall>v\<in>set (vertices f). v < length (polyp_light s) \<and> v < length (polyp_collection s))"
  shows "energy_loop s fs light collection =
           Some (light + spec_total (polyp_light s) fs,
                 collection + spec_total (polyp_collection s) fs)"
  using assms
proof (induction fs arbitrary: light collection)
  case Nil
  then show ?case by (simp add: spec_total_def)
next
  case (Cons f fs)
  have l: "sum_at (polyp_light s) (vertices f) 0 = Some (3 * face_mean (polyp_light s) f)"
    using Cons.prems by (intro sum_at_triangle) auto
  have c: "sum_at (polyp_collection s) (vertices f) 0
             = Some (3 * face_mean (polyp_collection s) f)"
    using Cons.prems by (intro sum_at_triangle) auto
  show ?case
    using Cons.prems Cons.IH by (simp add: l c spec_total_def)
qed

lemma count_bits_Suc:
  "count_bits (Suc n) w foo =
     (if bit w n then (count_bits n w foo)[n := count_bits n w foo ! n + 1]
      else count_bits n w foo)"
  by (simp add: count_bits_def bit_iff_and_push_bit_not_eq_0)

lemma count_bits_0: "count_bits 0 w foo = foo"
  by (simp add: count_bits_def)

lemma length_count_bits: "length (count_bits n w foo) = length foo"
  by (induction n) (simp_all add: count_bits_0 count_bits_Suc)

lemma count_bits_nth:
  "i < length foo \<Longrightarrow>
   count_bits n w foo ! i = (if i < n \<and> bit w i then foo ! i + 1 else foo ! i)"
proof (induction n)
  case 0
  then show ?case by (simp add: count_bits_0)
next
  case (Suc n)
  then show ?case
    by (auto simp: count_bits_Suc length_count_bits nth_list_update less_Suc_eq)
qed

lemma inherit_Suc:
  "inherit (Suc n) foo half w =
     (if half < unat (foo ! n) then inherit n foo half w OR push_bit n 1
      else inherit n foo half w)"
  by (simp add: inherit_def)

lemma inherit_0: "inherit 0 foo half w = w"
  by (simp add: inherit_def)

lemma inherit_bit:
  "bit (inherit n foo half w) i \<longleftrightarrow> bit w i \<or> (i < n \<and> i < 32 \<and> half < unat (foo ! i))"
proof (induction n)
  case 0
  then show ?case by (simp add: inherit_0)
next
  case (Suc n)
  then show ?case
    by (auto simp: inherit_Suc bit_simps less_Suc_eq)
qed

lemma filter_length_perm:
  assumes "mset xs = mset ys"
  shows "length (filter P xs) = length (filter P ys)"
proof -
  have "size (mset (filter P xs)) = size (mset (filter P ys))"
    by (simp add: assms)
  then show ?thesis by (simp only: size_mset)
qed

lemma tally_None_iff:
  "tally vd mem n nbrs foo = None \<longleftrightarrow>
     (\<exists>u\<in>set nbrs. \<exists>j. vd u = Some j \<and> \<not> j < length mem)"
  by (induction nbrs arbitrary: foo) (auto split: option.splits)

lemma tally_Some:
  assumes "tally vd mem n nbrs foo = Some foo'"
  shows "length foo' = length foo \<and>
         (\<forall>i < length foo.
            foo' ! i = foo ! i + (if i < n then of_nat (length (filter (has_bit vd mem i) nbrs)) else 0))"
  using assms
proof (induction nbrs arbitrary: foo)
  case Nil
  then show ?case by simp
next
  case (Cons u us)
  show ?case
  proof (cases "vd u")
    case None
    then have "tally vd mem n us foo = Some foo'" using Cons.prems by simp
    from Cons.IH[OF this] show ?thesis using None by (simp add: has_bit_def)
  next
    case (Some j)
    then have j: "j < length mem"
      and t: "tally vd mem n us (count_bits n (mem ! j) foo) = Some foo'"
      using Cons.prems by (auto split: if_splits)
    from Cons.IH[OF t] show ?thesis
      using Some by (auto simp: has_bit_def length_count_bits count_bits_nth)
  qed
qed

lemma tally_perm:
  assumes "mset nbrs' = mset nbrs"
  shows "tally vd mem n nbrs' foo = tally vd mem n nbrs foo"
proof (cases "tally vd mem n nbrs foo")
  case None
  then have "tally vd mem n nbrs' foo = None"
    using mset_eq_setD[OF assms] by (simp add: tally_None_iff)
  then show ?thesis using None by simp
next
  case (Some a)
  then have "tally vd mem n nbrs' foo \<noteq> None"
    using mset_eq_setD[OF assms] tally_None_iff[of vd mem n nbrs foo]
      tally_None_iff[of vd mem n nbrs' foo] by auto
  then obtain b where b: "tally vd mem n nbrs' foo = Some b" by auto
  have "b = a"
  proof (rule nth_equalityI)
    show "length b = length a" using tally_Some[OF b] tally_Some[OF Some] by simp
  next
    fix i assume "i < length b"
    then have i: "i < length foo" using tally_Some[OF b] by simp
    show "b ! i = a ! i"
      using tally_Some[OF b] tally_Some[OF Some] i filter_length_perm[OF assms, where P = "has_bit vd mem i"]
      by simp
  qed
  then show ?thesis using b Some by simp
qed

lemma tally_cong_vd:
  "\<forall>u\<in>set nbrs. vd u = vd' u \<Longrightarrow> tally vd mem n nbrs foo = tally vd' mem n nbrs foo"
  by (induction nbrs arbitrary: foo) (auto split: option.splits)

lemma createPolyp_memory:
  assumes "n_polyps s \<noteq> max_polyps s"
    and "n_polyps s < length (polyp_pos s)" and "n_polyps s < length (polyp_normal s)"
    and "n_polyps s < length (polyp_verts s)" and "n_polyps s < length (polyp_memory s)"
    and "tally ((vdata_polyp (mesh s))(vert \<mapsto> n_polyps s)) (polyp_memory s) (n_memory s)
           (neighbors (mesh s) vert) (replicate (n_memory s) 0) = Some foo"
  shows "polyp_memory (state_of (createPolyp s vert)) =
           (polyp_memory s)[n_polyps s :=
              inherit (n_memory s) foo (length (neighbors (mesh s) vert) div 2)
                (polyp_memory s ! n_polyps s)]"
  using assms by (simp add: createPolyp_def Let_def)

lemma grows_refl: "grows s s"
  by (simp add: grows_def)

lemma grows_trans: "grows s t \<Longrightarrow> grows t u \<Longrightarrow> grows s u"
  by (auto simp: grows_def)

lemma createPolyp_full: "n_polyps s = max_polyps s \<Longrightarrow> createPolyp s v = Returned s"
  by (simp add: createPolyp_def)

lemma createPolyp_grows: "grows s (state_of (createPolyp s v))"
  by (simp add: createPolyp_def grows_def Let_def split: option.split)



lemma bind_loop_grows: "grows s (state_of (bind_loop s vs))"
proof (induction vs arbitrary: s)
  case Nil
  then show ?case by (simp add: grows_refl)
next
  case (Cons v vs)
  show ?case
  proof (cases "vdata_polyp (mesh s) v = None")
    case False
    then show ?thesis using Cons.IH[of s] by auto
  next
    case True
    show ?thesis
    proof (cases "createPolyp s v")
      case (Returned s')
      then have "grows s s'" using createPolyp_grows[of s v] by simp
      then show ?thesis using True Returned Cons.IH[of s'] by (auto intro: grows_trans)
    next
      case (Raised e s')
      then have "grows s s'" using createPolyp_grows[of s v] by simp
      then show ?thesis using True Raised by simp
    qed
  qed
qed


lemma visit_face_mesh:
  "fst (visit_face X s i) = s\<lparr>mesh := mesh (fst (visit_face X s i))\<rparr>"
  by (simp add: visit_face_def Let_def)

lemma visit_face_state: "\<exists>m. fst (visit_face X s i) = s\<lparr>mesh := m\<rparr>"
  using visit_face_mesh[of X s i] by (rule exI)

lemma visit_face_counters:
  "n_polyps (fst (visit_face X s i)) = n_polyps s \<and> max_polyps (fst (visit_face X s i)) = max_polyps s"
  by (simp add: visit_face_def Let_def)

lemma visit_face_calls:
  "snd (visit_face X s i) = [] \<or> snd (visit_face X s i) = [i] \<or> snd (visit_face X s i) = [i, i]"
  by (simp add: visit_face_def Let_def)

lemma visit_face_within: "within_thresholds s i \<Longrightarrow> visit_face X s i = (s, [])"
  by (auto simp add: visit_face_def within_thresholds_def Let_def not_less)

lemma face_loop_Suc:
  "i < length (faces (mesh s)) \<Longrightarrow>
   face_loop (Suc k) X s i calls =
     (if n_polyps s = max_polyps s
      then Some (fst (visit_face X s i), calls @ snd (visit_face X s i))
      else face_loop k X (fst (visit_face X s i)) (i + 1) (calls @ snd (visit_face X s i)))"
  using visit_face_counters[of X s i] by (simp add: case_prod_unfold)

lemma face_loop_state:
  "face_loop fuel X s i calls = Some (t, cs) \<Longrightarrow> \<exists>m. t = s\<lparr>mesh := m\<rparr>"
proof (induction fuel arbitrary: s i calls)
  case 0
  then have "t = s\<lparr>mesh := mesh s\<rparr>"
    by (cases "i < length (faces (mesh s))") auto
  then show ?case by (rule exI)
next
  case (Suc k)
  show ?case
  proof (cases "i < length (faces (mesh s))")
    case False
    then have "t = s\<lparr>mesh := mesh s\<rparr>" using Suc.prems by auto
    then show ?thesis by (rule exI)
  next
    case True
    obtain m where m: "fst (visit_face X s i) = s\<lparr>mesh := m\<rparr>"
      using visit_face_state by blast
    show ?thesis
    proof (cases "n_polyps s = max_polyps s")
      case True
      then have "t = fst (visit_face X s i)"
        using Suc.prems \<open>i < length (faces (mesh s))\<close>
        by (simp add: face_loop_Suc del: face_loop.simps)
      then have "t = s\<lparr>mesh := m\<rparr>" using m by simp
      then show ?thesis by (rule exI)
    next
      case False
      then have "face_loop k X (s\<lparr>mesh := m\<rparr>) (i + 1) (calls @ snd (visit_face X s i)) = Some (t, cs)"
        using Suc.prems True m by (simp add: face_loop_Suc del: face_loop.simps)
      from Suc.IH[OF this] obtain m' where "t = (s\<lparr>mesh := m\<rparr>)\<lparr>mesh := m'\<rparr>" by blast
      then have "t = s\<lparr>mesh := m'\<rparr>" by simp
      then show ?thesis by (rule exI)
    qed
  qed
qed

lemma face_loop_counts:
  "face_loop fuel X s i calls = Some (t, cs) \<Longrightarrow>
   count_list cs j \<le> count_list calls j + (if i \<le> j then 2 else 0)"
proof (induction fuel arbitrary: s i calls)
  case 0
  then show ?case by (cases "i < length (faces (mesh s))") auto
next
  case (Suc k)
  show ?case
  proof (cases "i < length (faces (mesh s))")
    case False
    then show ?thesis using Suc.prems by auto
  next
    case True
    have c: "count_list (calls @ snd (visit_face X s i)) j
               \<le> count_list calls j + (if j = i then 2 else 0)"
      using visit_face_calls[of X s i] by auto
    show ?thesis
    proof (cases "n_polyps s = max_polyps s")
      case True
      then have "cs = calls @ snd (visit_face X s i)"
        using Suc.prems \<open>i < length (faces (mesh s))\<close>
        by (simp add: face_loop_Suc del: face_loop.simps)
      then show ?thesis using c by (auto split: if_splits)
    next
      case False
      then have "face_loop k X (fst (visit_face X s i)) (i + 1) (calls @ snd (visit_face X s i))
                   = Some (t, cs)"
        using Suc.prems True by (simp add: face_loop_Suc del: face_loop.simps)
      from Suc.IH[OF this] show ?thesis using c by (auto split: if_splits)
    qed
  qed
qed

lemma face_loop_idle:
  "\<forall>k. i \<le> k \<and> k < length (faces (mesh s)) \<longrightarrow> within_thresholds s k \<Longrightarrow>
   length (faces (mesh s)) - i \<le> fuel \<Longrightarrow>
   face_loop fuel X s i calls = Some (s, calls)"
proof (induction fuel arbitrary: i)
  case 0
  then show ?case by simp
next
  case (Suc k)
  show ?case
  proof (cases "i < length (faces (mesh s))")
    case False
    then show ?thesis by simp
  next
    case True
    then have v: "visit_face X s i = (s, [])"
      using Suc.prems(1) by (intro visit_face_within) auto
    have "face_loop k X s (i + 1) calls = Some (s, calls)"
      using Suc.prems True by (intro Suc.IH) auto
    then show ?thesis using True v by (simp add: face_loop_Suc del: face_loop.simps)
  qed
qed


lemma calculateEnergy_counters:
  "n_polyps (state_of (calculateEnergy s)) = n_polyps s
   \<and> max_polyps (state_of (calculateEnergy s)) = max_polyps s"
  by (simp add: calculateEnergy_def split: option.split prod.split)


lemma updateAttributes_counters:
  "frame X \<Longrightarrow> n_polyps (state_of (updateAttributes X s)) = n_polyps s
   \<and> max_polyps (state_of (updateAttributes X s)) = max_polyps s"
  by (simp add: updateAttributes_def Let_def calculateEnergy_counters frame_def keeps_counters_def)


lemma polypDivision_grows:
  assumes "polypDivision fuel X s = Some r"
  shows "grows s (state_of r)"
proof -
  obtain t cs where f: "face_loop fuel X s 0 [] = Some (t, cs)"
    and r: "r = bind_loop t (verts (mesh t))"
    using assms by (auto simp: polypDivision_def split: option.splits)
  obtain m where "t = s\<lparr>mesh := m\<rparr>" using face_loop_state[OF f] by blast
  then have "grows s t" by (simp add: grows_def)
  then show ?thesis using bind_loop_grows[of t "verts (mesh t)"] r by (auto intro: grows_trans)
qed



lemma step_grows:
  assumes "frame X" and "step fuel X s = Some r"
  shows "grows s (state_of r)"
proof -
  let ?s1 = "grow_polyps X s"
  have g: "grows s ?s1"
    using assms(1) by (simp add: frame_def keeps_counters_def grows_def)
  show ?thesis
  proof (cases "nan_position ?s1")
    case True
    then show ?thesis using assms(2) g by (auto simp: step_def Let_def)
  next
    case False
    then obtain d where d: "polypDivision fuel X ?s1 = Some d"
      using assms(2) by (auto simp: step_def Let_def split: option.splits)
    have gd: "grows s (state_of d)"
      using polypDivision_grows[OF d] g by (auto intro: grows_trans)
    show ?thesis
    proof (cases d)
      case (Raised e t)
      then show ?thesis using assms(2) False d gd by (auto simp: step_def Let_def)
    next
      case (Returned t)
      have u: "grows t (state_of (updateAttributes X t))"
        using updateAttributes_counters[OF assms(1), of t] by (simp add: grows_def)
      show ?thesis
      proof (cases "updateAttributes X t")
        case (Raised e u')
        then show ?thesis using assms(2) False d Returned gd u
          by (auto simp: step_def Let_def intro: grows_trans)
      next
        case R: (Returned u')
        then have "r = Returned (u'\<lparr>age := age u' + 1\<rparr>)"
          using assms(2) False d Returned by (auto simp: step_def Let_def)
        moreover have "grows s u'" using gd u R Returned by (auto intro: grows_trans)
        ultimately show ?thesis by (auto simp: grows_def)
      qed
    qed
  qed
qed

lemma calculateEnergy_light: "polyp_light (state_of (calculateEnergy s)) = polyp_light s"
  by (simp add: calculateEnergy_def split: option.split prod.split)


lemma frame_dividing: "frame dividing"
  by (simp add: frame_def keeps_counters_def quiet_def dividing_def)

lemma pass_large_face:
  "map_option snd (face_loop 7 dividing large_face 0 []) = Some [0, 0, 1, 2, 2, 3, 4, 5, 6]"
  by (simp add: visit_face_def centroid_split_def dividing_def quiet_def large_face_def
      colony_def triangle_def Let_def eval_nat_numeral)

lemma step_large_face:
  "map_option (n_polyps \<circ> state_of) (step 7 dividing large_face) = Some 6"
  by (simp add: step_def polypDivision_def visit_face_def updateAttributes_def
      calculateEnergy_def remap_light_def nan_position_def np_sum_def Let_def
      createPolyp_def count_bits_def inherit_def centroid_split_def dividing_def
      quiet_def large_face_def colony_def triangle_def origin_def eval_nat_numeral)

section \<open>The majority vote of \<^verbatim>\<open>createPolyp\<close> (C1)\<close>

text \<open>
  C1 as stated fails. The new vertex 3 of \<open>front\<close> has four neighbours, two of them bound,
  both with memory bit 0 set. The tally 2 exceeds half the count of bound neighbours, yet
  \<^verbatim>\<open>half = len(neighbors) // 2\<close> counts all four neighbours, the test \<^verbatim>\<open>foo[i] > half\<close>
  is \<open>2 > 2\<close>, and bit 0 of the new polyp's memory stays unset.
\<close>

theorem bound_only_denominator_counterexample:
  "length (bound_neighbors front 3) = 2 \<and> votes front 3 0 = 2
   \<and> length (neighbors (mesh front) 3) = 4
   \<and> \<not> bit (polyp_memory (state_of (createPolyp front 3)) ! 3) 0"
  by (simp add: createPolyp_def bound_neighbors_def votes_def has_bit_def front_def colony_def
      triangle_def Let_def count_bits_def inherit_def origin_def
      upt_rec[of _ 2] upt_rec[of _ "Suc 0"])

text \<open>
  C1, amended. When \<^verbatim>\<open>createPolyp\<close> creates a polyp for a vertex that is not its own
  neighbour, in a free slot of the arrays whose memory word is 0, with fewer than \<open>2^32\<close>
  neighbours whose polyp indices lie inside the memory array, then for every bit position
  \<open>i < n_memory\<close> bit \<open>i\<close> of the new polyp's memory is set if and only if the number of
  neighbours that are bound to a polyp and have bit \<open>i\<close> set strictly exceeds the integer
  half (\<^verbatim>\<open>//\<close>) of the number of all neighbours, bound or not. Unbound neighbours are
  left out of the tally but count in the denominator.
\<close>

theorem createPolyp_majority:
  assumes "n_polyps s \<noteq> max_polyps s"
    and "n_polyps s < length (polyp_pos s)" and "n_polyps s < length (polyp_normal s)"
    and "n_polyps s < length (polyp_verts s)" and "n_polyps s < length (polyp_memory s)"
    and "polyp_memory s ! n_polyps s = 0"
    and "\<forall>u\<in>set (neighbors (mesh s) vert). \<forall>j. vdata_polyp (mesh s) u = Some j
            \<longrightarrow> j < length (polyp_memory s)"
    and "vert \<notin> set (neighbors (mesh s) vert)"
    and "length (neighbors (mesh s) vert) < 2 ^ 32"
    and "i < n_memory s" and "n_memory s \<le> 32"
  shows "bit (polyp_memory (state_of (createPolyp s vert)) ! n_polyps s) i
           \<longleftrightarrow> length (neighbors (mesh s) vert) div 2 < votes s vert i"
proof -
  let ?vd = "vdata_polyp (mesh s)" and ?mem = "polyp_memory s"
  let ?nbrs = "neighbors (mesh s) vert" and ?n = "n_memory s"
  let ?vd' = "?vd(vert \<mapsto> n_polyps s)"
  have same: "\<forall>u\<in>set ?nbrs. ?vd' u = ?vd u"
    using assms(8) by auto
  have t': "tally ?vd' ?mem ?n ?nbrs (replicate ?n 0) = tally ?vd ?mem ?n ?nbrs (replicate ?n 0)"
    using same by (intro tally_cong_vd) simp
  have "tally ?vd ?mem ?n ?nbrs (replicate ?n 0) \<noteq> None"
    using assms(7) by (auto simp: tally_None_iff)
  then obtain foo where foo: "tally ?vd ?mem ?n ?nbrs (replicate ?n 0) = Some foo" by auto
  have v: "length (filter (has_bit ?vd ?mem i) ?nbrs) = votes s vert i"
    by (simp add: votes_def)
  have "foo ! i = of_nat (votes s vert i)"
    using tally_Some[OF foo] assms(10) v by simp
  moreover have "votes s vert i \<le> length ?nbrs"
    by (simp add: votes_def)
  then have "votes s vert i < 2 ^ 32"
    using assms(9) by simp
  ultimately have u: "unat (foo ! i) = votes s vert i"
    by (simp add: unat_of_nat)
  have "polyp_memory (state_of (createPolyp s vert)) ! n_polyps s =
          inherit ?n foo (length ?nbrs div 2) (?mem ! n_polyps s)"
    using createPolyp_memory[OF assms(1-5), of vert foo] foo t' assms(5) by simp
  then show ?thesis
    using assms(6,10,11) u by (simp add: inherit_bit)
qed

theorem createPolyp_majority_witness:
  "votes front3 3 0 = 2 \<and> length (neighbors (mesh front3) 3) = 3
   \<and> bit (polyp_memory (state_of (createPolyp front3 3)) ! n_polyps front3) 0"
proof -
  have v: "votes front3 3 0 = 2"
    by (simp add: votes_def has_bit_def front3_def colony_def triangle_def)
  have l: "length (neighbors (mesh front3) 3) = 3"
    by (simp add: front3_def colony_def triangle_def)
  have "bit (polyp_memory (state_of (createPolyp front3 3)) ! n_polyps front3) 0
           \<longleftrightarrow> length (neighbors (mesh front3) 3) div 2 < votes front3 3 0"
    by (rule createPolyp_majority)
       (simp_all add: front3_def colony_def triangle_def origin_def)
  then show ?thesis using v l by simp
qed

section \<open>The population counter (C2)\<close>

text \<open>
  C2. For collaborators that create no polyp and keep the capacity, a call of \<^verbatim>\<open>step\<close>
  that comes back, returning or raising, leaves \<open>n_polyps\<close> at or above its value before the
  call, keeps \<open>max_polyps\<close>, and keeps \<open>n_polyps\<close> at or below \<open>max_polyps\<close> if it was so
  before. The same holds at the only places where the counter is written or the mesh is
  split: a call of \<^verbatim>\<open>createPolyp\<close> and an iteration of the face loop, which does not touch
  the counters at all. Once \<open>n_polyps = max_polyps\<close>, \<^verbatim>\<open>createPolyp\<close> returns at once, without
  raising and without changing anything.
\<close>

theorem population_counter:
  "(frame X \<and> step fuel X s = Some r \<longrightarrow>
      n_polyps s \<le> n_polyps (state_of r) \<and> max_polyps (state_of r) = max_polyps s
      \<and> (n_polyps s \<le> max_polyps s \<longrightarrow> n_polyps (state_of r) \<le> max_polyps s))
   \<and> n_polyps s \<le> n_polyps (state_of (createPolyp s vert))
   \<and> max_polyps (state_of (createPolyp s vert)) = max_polyps s
   \<and> (n_polyps s \<le> max_polyps s \<longrightarrow> n_polyps (state_of (createPolyp s vert)) \<le> max_polyps s)
   \<and> n_polyps (fst (visit_face X s i)) = n_polyps s
   \<and> max_polyps (fst (visit_face X s i)) = max_polyps s
   \<and> (n_polyps s = max_polyps s \<longrightarrow> createPolyp s vert = Returned s)"
  using step_grows[of X fuel s r] createPolyp_grows[of s vert] visit_face_counters[of X s i]
    createPolyp_full[of s vert]
  by (auto simp: grows_def)

theorem population_counter_witness:
  "frame dividing
   \<and> n_polyps large_face = 3 \<and> max_polyps large_face = 6
   \<and> map_option (n_polyps \<circ> state_of) (step 7 dividing large_face) = Some 6
   \<and> n_polyps (state_of (createPolyp front3 3)) = 4
   \<and> n_polyps full_colony = max_polyps full_colony
   \<and> createPolyp full_colony 3 = Returned full_colony"
proof -
  obtain r where r: "step 7 dividing large_face = Some r"
    using step_large_face by auto
  have c: "n_polyps full_colony = max_polyps full_colony"
    by (simp add: full_colony_def colony_def)
  have n: "n_polyps large_face = 3 \<and> max_polyps large_face = 6"
    by (simp add: large_face_def colony_def)
  have p: "n_polyps (state_of (createPolyp front3 3)) = 4"
    by (simp add: createPolyp_def front3_def colony_def triangle_def Let_def count_bits_def
        inherit_def origin_def upt_rec[of _ 2] upt_rec[of _ "Suc 0"])
  show ?thesis
    using population_counter[of dividing 7 large_face r 3 0]
      population_counter[of dividing 7 full_colony r 3 0]
      frame_dividing step_large_face r c n p by simp
qed

section \<open>Splits within one division pass (C3)\<close>

text \<open>
  C3 as stated fails. The two tests of the face loop are independent \<^verbatim>\<open>if\<close> statements,
  and the area is read again after the first split. The one face of \<open>large_face\<close> is over the
  edge threshold and, with area 9 against the threshold 1, still over the area threshold
  after a split into thirds: its iteration calls \<^verbatim>\<open>split\<close> on it twice and leaves five faces
  where there was one. The whole pass makes the calls listed, face 0 first and twice.
\<close>

theorem faces_split_twice_counterexample:
  "length (faces (mesh large_face)) = 1
   \<and> snd (visit_face dividing large_face 0) = [0, 0]
   \<and> map area (faces (mesh (fst (visit_face dividing large_face 0)))) = [1, 3, 3, 1, 1]
   \<and> map_option snd (face_loop 7 dividing large_face 0 []) = Some [0, 0, 1, 2, 2, 3, 4, 5, 6]"
  using pass_large_face
  by (simp add: visit_face_def centroid_split_def dividing_def quiet_def large_face_def
      colony_def triangle_def Let_def)

text \<open>
  C3, amended. Within a single pass of the face loop of \<^verbatim>\<open>polypDivision\<close>, \<^verbatim>\<open>split\<close> is
  called at most twice on each face, once for the edge test and once for the area test of
  the iteration that visits it. A face whose three edge lengths are all at or below
  \<open>max_edge_len\<close> and whose area is at or below \<open>max_face_area\<close> is not passed to \<^verbatim>\<open>split\<close>
  and its iteration changes nothing; a pass over a mesh all of whose faces are such makes
  no call of \<^verbatim>\<open>split\<close> and returns the object unchanged, so that repeating it gives the same
  result.
\<close>

theorem division_pass_splits:
  "(face_loop fuel X s 0 [] = Some (t, calls) \<longrightarrow> count_list calls j \<le> 2)
   \<and> length (snd (visit_face X s i)) \<le> 2
   \<and> (within_thresholds s i \<longrightarrow> visit_face X s i = (s, []))
   \<and> ((\<forall>k < length (faces (mesh s)). within_thresholds s k) \<and> length (faces (mesh s)) \<le> fuel
        \<longrightarrow> face_loop fuel X s 0 [] = Some (s, []))"
proof -
  have a: "face_loop fuel X s 0 [] = Some (t, calls) \<longrightarrow> count_list calls j \<le> 2"
    using face_loop_counts[of fuel X s 0 "[]" t calls j] by auto
  have b: "length (snd (visit_face X s i)) \<le> 2"
    using visit_face_calls[of X s i] by auto
  have c: "within_thresholds s i \<longrightarrow> visit_face X s i = (s, [])"
    using visit_face_within by blast
  have d: "(\<forall>k < length (faces (mesh s)). within_thresholds s k) \<and> length (faces (mesh s)) \<le> fuel
        \<longrightarrow> face_loop fuel X s 0 [] = Some (s, [])"
    using face_loop_idle[of 0 s fuel X "[]"] by auto
  show ?thesis using a b c d by blast
qed

theorem division_pass_splits_witness:
  "within_thresholds colony 0
   \<and> visit_face dividing colony 0 = (colony, [])
   \<and> length (faces (mesh colony)) = 1
   \<and> face_loop 1 dividing colony 0 [] = Some (colony, [])
   \<and> map_option (\<lambda>r. count_list (snd r) 0) (face_loop 7 dividing large_face 0 []) = Some 2"
proof -
  have w: "within_thresholds colony 0"
    by (simp add: within_thresholds_def colony_def triangle_def)
  have l: "length (faces (mesh colony)) = 1"
    by (simp add: colony_def triangle_def)
  have a: "\<forall>k < length (faces (mesh colony)). within_thresholds colony k"
    using w l by simp
  note t = division_pass_splits[of 1 dividing colony colony "[]" 0 0]
  have v: "visit_face dividing colony 0 = (colony, [])"
    using t w by blast
  have f: "face_loop 1 dividing colony 0 [] = Some (colony, [])"
    using t a l by simp
  obtain u where u: "face_loop 7 dividing large_face 0 [] = Some (u, [0, 0, 1, 2, 2, 3, 4, 5, 6])"
    using pass_large_face by auto
  have "count_list [0, 0, 1, 2, 2, 3, 4, 5, 6] (0::nat) \<le> 2"
    using division_pass_splits[of 7 dividing large_face u "[0, 0, 1, 2, 2, 3, 4, 5, 6]" 0 0] u
    by blast
  then have g: "map_option (\<lambda>r. count_list (snd r) 0) (face_loop 7 dividing large_face 0 [])
                  = Some 2"
    using u by simp
  show ?thesis using w v l f g by blast
qed

section \<open>The light remap of \<^verbatim>\<open>updateAttributes\<close> (C4)\<close>

text \<open>
  C4. Let \<open>raw\<close> be the light array as the light and collection calculators leave it in
  \<^verbatim>\<open>updateAttributes\<close>. When the gravity calculator and the morphogen solver leave the
  light array alone, the light array after \<^verbatim>\<open>updateAttributes\<close> has the length of \<open>raw\<close>, an
  entry that is exactly 0 in \<open>raw\<close> is 0, and every other entry \<open>x\<close> of \<open>raw\<close> has
  become \<open>(x - 0.5) * 2\<close>; raw 0.3 becomes -0.4. This holds whether the energy calculation
  that ends \<^verbatim>\<open>updateAttributes\<close> returns or raises.
\<close>

theorem updateAttributes_remaps_light:
  assumes "keeps_light (calculate_gravity X)" and "keeps_light (morphogens_update X)"
    and "raw = polyp_light (calculate_collection X (calculate_light X
                  (s\<lparr>mesh := calculateCurvature X (calculateNormals X (mesh s))\<rparr>)))"
  shows "length (polyp_light (state_of (updateAttributes X s))) = length raw
         \<and> (\<forall>i < length raw.
               polyp_light (state_of (updateAttributes X s)) ! i
                 = (if raw ! i = 0 then 0 else (raw ! i - 5 / 10) * 2))"
proof -
  have "polyp_light (state_of (updateAttributes X s)) = remap_light raw"
    using assms by (simp add: updateAttributes_def Let_def calculateEnergy_light keeps_light_def)
  then show ?thesis by (simp add: remap_light_def)
qed

theorem updateAttributes_remaps_light_witness:
  "polyp_light colony ! 0 = 0
   \<and> polyp_light (state_of (updateAttributes quiet colony)) ! 0 = 0
   \<and> polyp_light colony ! 1 = 3 / 10
   \<and> polyp_light (state_of (updateAttributes quiet colony)) ! 1 = - (4 / 10)"
proof -
  have g: "keeps_light (calculate_gravity quiet)" and m: "keeps_light (morphogens_update quiet)"
    by (simp_all add: keeps_light_def quiet_def)
  have r: "polyp_light colony = polyp_light (calculate_collection quiet (calculate_light quiet
             (colony\<lparr>mesh := calculateCurvature quiet (calculateNormals quiet (mesh colony))\<rparr>)))"
    by (simp add: quiet_def)
  have c: "polyp_light colony = [0, 3 / 10, 1, 0, 0, 0]"
    by (simp add: colony_def)
  note t = updateAttributes_remaps_light[OF g m r, THEN conjunct2, rule_format]
  show ?thesis
    using t[of 0] t[of 1] by (simp add: c)
qed

section \<open>A step at capacity (C5)\<close>




section \<open>The energy (C6)\<close>

text \<open>
  C6. On a mesh of triangles whose vertex ids index the light and collection arrays,
  \<^verbatim>\<open>calculateEnergy\<close> returns and sets the energy to
  \<open>light_total * light_amount + collection_total * (1 - light_amount)\<close>, each total being the
  sum over the faces of the area times the mean of the three vertices' values.
\<close>

theorem calculateEnergy_spec:
  assumes "\<forall>f\<in>set (faces (mesh s)). length (vertices f) = 3
             \<and> (\<forall>v\<in>set (vertices f). v < length (polyp_light s) \<and> v < length (polyp_collection s))"
  shows "calculateEnergy s = Returned (s\<lparr>energy := spec_energy s\<rparr>)"
  using energy_loop_spec[OF assms, of 0 0] by (simp add: calculateEnergy_def spec_energy_def)

theorem calculateEnergy_spec_witness:
  "vertices (hd (faces (mesh colony))) = [0, 1, 2]
   \<and> calculateEnergy colony = Returned (colony\<lparr>energy := 43 / 120\<rparr>)"
proof -
  have h: "\<forall>f\<in>set (faces (mesh colony)). length (vertices f) = 3
       \<and> (\<forall>v\<in>set (vertices f).
             v < length (polyp_light colony) \<and> v < length (polyp_collection colony))"
    by (simp add: colony_def triangle_def)
  have e: "spec_energy colony = 43 / 120"
    by (simp add: spec_energy_def spec_total_def face_mean_def colony_def triangle_def)
  have v: "vertices (hd (faces (mesh colony))) = [0, 1, 2]"
    by (simp add: colony_def triangle_def)
  show ?thesis
    using v calculateEnergy_spec[OF h] by (simp add: e)
qed

section \<open>The shape assertions of the constructor (C8)\<close>

text \<open>
  C8. The assertions of \<^verbatim>\<open>__init__\<close> raise whenever the network's input count differs
  from \<open>5 + n_memory + n_morphogens * (morph_thresholds - 1)\<close> or its output count differs
  from \<open>1 + n_memory + n_morphogens\<close>, with the assertion on the count that differs; when
  both counts match neither shape assertion is raised, and with a memory of at most 32
  bits construction goes on.
\<close>

theorem init_asserts_shape:
  "(net_inputs \<noteq> 5 + p_polyp_memory p + p_n_morphogens p * (p_morph_thresholds p - 1)
      \<or> net_outputs \<noteq> 1 + p_polyp_memory p + p_n_morphogens p
    \<longrightarrow> init_asserts p net_inputs net_outputs = Inl (AssertionError NumInputs)
        \<or> init_asserts p net_inputs net_outputs = Inl (AssertionError NumOutputs))
   \<and> (net_inputs = 5 + p_polyp_memory p + p_n_morphogens p * (p_morph_thresholds p - 1)
      \<and> net_outputs = 1 + p_polyp_memory p + p_n_morphogens p
    \<longrightarrow> init_asserts p net_inputs net_outputs \<noteq> Inl (AssertionError NumInputs)
        \<and> init_asserts p net_inputs net_outputs \<noteq> Inl (AssertionError NumOutputs)
        \<and> (p_polyp_memory p \<le> 32
             \<longrightarrow> init_asserts p net_inputs net_outputs = Inr (net_inputs, net_outputs)))"
  by (simp add: init_asserts_def num_inputs_def num_outputs_def)

theorem init_asserts_shape_witness:
  "init_asserts \<lparr>p_polyp_memory = 2, p_n_morphogens = 2, p_morph_thresholds = 3\<rparr> 11 5
       = Inr (11, 5)
   \<and> init_asserts \<lparr>p_polyp_memory = 2, p_n_morphogens = 2, p_morph_thresholds = 3\<rparr> 10 5
       = Inl (AssertionError NumInputs)
   \<and> init_asserts \<lparr>p_polyp_memory = 2, p_n_morphogens = 2, p_morph_thresholds = 3\<rparr> 11 6
       = Inl (AssertionError NumOutputs)"
  using
    init_asserts_shape[of 11 "\<lparr>p_polyp_memory = 2, p_n_morphogens = 2, p_morph_thresholds = 3\<rparr>" 5]
    init_asserts_shape[of 10 "\<lparr>p_polyp_memory = 2, p_n_morphogens = 2, p_morph_thresholds = 3\<rparr>" 5]
    init_asserts_shape[of 11 "\<lparr>p_polyp_memory = 2, p_n_morphogens = 2, p_morph_thresholds = 3\<rparr>" 6]
  by (simp add: init_asserts_def num_inputs_def num_outputs_def)

section \<open>The position check of \<^verbatim>\<open>step\<close> (C7)\<close>

text \<open>
  C7 as stated fails: a live coordinate at plus infinity is not finite, yet its sum is
  not NaN, the assertion holds and \<^verbatim>\<open>step\<close> returns.
\<close>

theorem infinity_passes_counterexample:
  "PInf \<in> set (concat (take (n_polyps runaway) (polyp_pos runaway)))
   \<and> map_option raised (step 1 quiet runaway) = Some None"
  by (simp add: step_def polypDivision_def visit_face_def updateAttributes_def
      calculateEnergy_def remap_light_def nan_position_def np_sum_def Let_def
      quiet_def runaway_def full_colony_def colony_def triangle_def origin_def)

text \<open>
  C7, amended. If, after \<^verbatim>\<open>grow_polyps\<close>, some coordinate of a live polyp (rows
  \<open>0..n_polyps-1\<close>) is NaN, then \<^verbatim>\<open>step\<close> raises the assertion error of the position
  check, before any division, and leaves the object as \<^verbatim>\<open>grow_polyps\<close> left it.
\<close>

theorem step_raises_on_NaN:
  assumes "NaN \<in> set (concat (take (n_polyps (grow_polyps X s)) (polyp_pos (grow_polyps X s))))"
  shows "step fuel X s = Some (Raised (AssertionError NaN_position) (grow_polyps X s))"
  using foldl_fadd_has_NaN[OF assms, of "Fin 0"]
  by (simp add: step_def Let_def nan_position_def np_sum_def)

theorem step_raises_on_NaN_witness:
  "NaN \<in> set (concat (take (n_polyps (grow_polyps quiet corrupt))
                         (polyp_pos (grow_polyps quiet corrupt))))
   \<and> step 1 quiet corrupt = Some (Raised (AssertionError NaN_position) corrupt)"
proof -
  have h: "NaN \<in> set (concat (take (n_polyps (grow_polyps quiet corrupt))
                                 (polyp_pos (grow_polyps quiet corrupt))))"
    by (simp add: quiet_def corrupt_def full_colony_def colony_def origin_def)
  show ?thesis
    using h step_raises_on_NaN[OF h, of 1] by (simp add: quiet_def)
qed

section \<open>Order independence of the memory inheritance (C9)\<close>

text \<open>
  C9. \<^verbatim>\<open>createPolyp\<close> does not depend on the order in which \<^verbatim>\<open>vert.neighbors()\<close> lists
  the neighbours: for any reordering of the neighbour list of the vertex (the same
  neighbours, each as often, hence the same memory words and the same count), the memory
  array after the call is the same, and so is the error raised, if any.
\<close>

theorem createPolyp_order_independent:
  assumes "mset nbrs' = mset (neighbors (mesh s) vert)"
  shows "polyp_memory (state_of (createPolyp
            (s\<lparr>mesh := (mesh s)\<lparr>neighbors := (neighbors (mesh s))(vert := nbrs')\<rparr>\<rparr>) vert))
          = polyp_memory (state_of (createPolyp s vert))
        \<and> raised (createPolyp
            (s\<lparr>mesh := (mesh s)\<lparr>neighbors := (neighbors (mesh s))(vert := nbrs')\<rparr>\<rparr>) vert)
          = raised (createPolyp s vert)"
proof -
  have l: "length nbrs' = length (neighbors (mesh s) vert)"
    using mset_eq_length[OF assms] .
  have t: "tally vd mem n nbrs' foo = tally vd mem n (neighbors (mesh s) vert) foo" for vd mem n foo
    using tally_perm[OF assms] .
  show ?thesis
    by (simp add: createPolyp_def Let_def t l split: option.split)
qed

theorem createPolyp_order_independent_witness:
  "polyp_memory (state_of (createPolyp
      (front3\<lparr>mesh := (mesh front3)\<lparr>neighbors := (neighbors (mesh front3))(3 := [4, 1, 0])\<rparr>\<rparr>) 3))
    = [1, 1, 2, 1, 0, 0]
   \<and> polyp_memory (state_of (createPolyp front3 3)) = [1, 1, 2, 1, 0, 0]"
proof -
  have m: "mset [4, 1, 0] = mset (neighbors (mesh front3) 3)"
    by (simp add: front3_def colony_def triangle_def)
  have r: "polyp_memory (state_of (createPolyp front3 3)) = [1, 1, 2, 1, 0, 0]"
    by (simp add: createPolyp_def front3_def colony_def triangle_def Let_def count_bits_def
        inherit_def origin_def upt_rec[of _ 2] upt_rec[of _ "Suc 0"])
  show ?thesis
    using createPolyp_order_independent[OF m] r by simp
qed

section \<open>The position check reads the live rows only (C10)\<close>




end
